theory Spec2Isabelle
  imports Complex_Main "HOL-Library.Word"
begin

section \<open>JSON values of the value store\<close>

text \<open>
  A Go \<open>float64\<close> as far as \<open><\<close> and \<open>>\<close> see it: not-a-number, the two
  infinities, or a finite value. Both zeros are \<open>Fin 0\<close>: Go compares them equal.
\<close>

datatype float64 = NaN | NegInf | Fin real | PosInf

text \<open>Go's \<open>a < b\<close> on \<open>float64\<close>: false whenever an operand is NaN.\<close>

fun float_lt :: "float64 \<Rightarrow> float64 \<Rightarrow> bool" where
  "float_lt NaN _ = False"
| "float_lt _ NaN = False"
| "float_lt NegInf NegInf = False"
| "float_lt NegInf _ = True"
| "float_lt (Fin x) (Fin y) = (x < y)"
| "float_lt (Fin x) PosInf = True"
| "float_lt (Fin x) NegInf = False"
| "float_lt PosInf _ = False"

text \<open>Go's \<open>a > b\<close> on \<open>float64\<close>.\<close>

definition float_gt :: "float64 \<Rightarrow> float64 \<Rightarrow> bool" where
  "float_gt a b = float_lt b a"

text \<open>
  The kinds of value the comparator meets. \<open>Other k\<close> stands for a value of any
  remaining kind \<open>k\<close> of the store (Int, Uint, Blob, Ref, ...), which is not a JSON value.
\<close>

datatype Value =
    Null
  | Bool bool
  | Float float64
  | String string
  | List "Value list"
  | Map "(Value \<times> Value) list"
  | Other nat

datatype json_error = UnexpectedType Value | LessError string | WriteError string


text \<open>Go's \<open>strings.Compare\<close>: byte-wise lexicographic, giving -1, 0 or 1.\<close>

fun strings_Compare :: "string \<Rightarrow> string \<Rightarrow> int" where
  "strings_Compare [] [] = 0"
| "strings_Compare [] (y # ys) = -1"
| "strings_Compare (x # xs) [] = 1"
| "strings_Compare (x # xs) (y # ys) =
     (if (of_char x :: nat) < of_char y then -1
      else if (of_char y :: nat) < of_char x then 1
      else strings_Compare xs ys)"

text \<open>
  \<open>List.Less\<close> and \<open>Map.Less\<close> belong to the value store and are not part of the
  comparator's file. The comparator takes them as the parameters \<open>listLess\<close> and
  \<open>mapLess\<close>; each may fail.
\<close>

type_synonym less_fn = "Value \<Rightarrow> Value \<Rightarrow> json_error + bool"

definition compareJSONBool :: "bool \<Rightarrow> Value \<Rightarrow> json_error + int" where
  "compareJSONBool a b =
     (case b of
        Bool b' \<Rightarrow> (if a = b' then Inr 0 else if a then Inr 1 else Inr (- 1))
      | _ \<Rightarrow> Inr 1)"

definition compareJSONArray :: "less_fn \<Rightarrow> Value list \<Rightarrow> Value \<Rightarrow> json_error + int" where
  "compareJSONArray listLess a b =
     (case b of
        Bool b' \<Rightarrow> Inr (- 1)
      | List b' \<Rightarrow>
          (case listLess (List a) (List b') of
             Inl err \<Rightarrow> Inl err
           | Inr aLess \<Rightarrow>
               if aLess then Inr (- 1)
               else (case listLess (List b') (List a) of
                       Inl err \<Rightarrow> Inl err
                     | Inr bLess \<Rightarrow> if bLess then Inr 1 else Inr 0))
      | _ \<Rightarrow> Inr 1)"

definition compareJSONObject :: "less_fn \<Rightarrow> (Value \<times> Value) list \<Rightarrow> Value \<Rightarrow> json_error + int" where
  "compareJSONObject mapLess a b =
     (case b of
        Bool b' \<Rightarrow> Inr (- 1)
      | List b' \<Rightarrow> Inr (- 1)
      | Map b' \<Rightarrow>
          (case mapLess (Map a) (Map b') of
             Inl err \<Rightarrow> Inl err
           | Inr aLess \<Rightarrow>
               if aLess then Inr (- 1)
               else (case mapLess (Map b') (Map a) of
                       Inl err \<Rightarrow> Inl err
                     | Inr bLess \<Rightarrow> if bLess then Inr 1 else Inr 0))
      | _ \<Rightarrow> Inr 1)"

definition compareJSONString :: "string \<Rightarrow> Value \<Rightarrow> json_error + int" where
  "compareJSONString a b =
     (case b of
        Bool b' \<Rightarrow> Inr (- 1)
      | List b' \<Rightarrow> Inr (- 1)
      | Map b' \<Rightarrow> Inr (- 1)
      | String b' \<Rightarrow> Inr (strings_Compare a b')
      | _ \<Rightarrow> Inr 1)"

definition compareJSONNumber :: "float64 \<Rightarrow> Value \<Rightarrow> json_error + int" where
  "compareJSONNumber a b =
     (case b of
        Bool b' \<Rightarrow> Inr (- 1)
      | List b' \<Rightarrow> Inr (- 1)
      | Map b' \<Rightarrow> Inr (- 1)
      | String b' \<Rightarrow> Inr (- 1)
      | Float b' \<Rightarrow>
          (if float_gt a b' then Inr 1
           else if float_lt a b' then Inr (- 1)
           else Inr 0)
      | _ \<Rightarrow> Inr 1)"

definition compareJSON :: "less_fn \<Rightarrow> less_fn \<Rightarrow> Value \<Rightarrow> Value \<Rightarrow> json_error + int" where
  "compareJSON listLess mapLess a b =
     (let aNull = (a = Null); bNull = (b = Null) in
      if aNull \<and> bNull then Inr 0
      else if aNull \<and> \<not> bNull then Inr (- 1)
      else if \<not> aNull \<and> bNull then Inr 1
      else (case a of
              Bool a' \<Rightarrow> compareJSONBool a' b
            | List a' \<Rightarrow> compareJSONArray listLess a' b
            | Map a' \<Rightarrow> compareJSONObject mapLess a' b
            | String a' \<Rightarrow> compareJSONString a' b
            | Float a' \<Rightarrow> compareJSONNumber a' b
            | _ \<Rightarrow> Inl (UnexpectedType a)))"


text \<open>
  A sample ordering to put in place of \<open>List.Less\<close> and \<open>Map.Less\<close> where a concrete
  one is needed: it never fails and orders values by their size.
\<close>

definition sizeLess :: less_fn where
  "sizeLess a b = Inr (size a < size b)"


text \<open>
  Modelled from the spec: \<open>List.Less\<close> and \<open>Map.Less\<close> are methods of the value store's
  List and Map, which are not among the sources. The spec gives the order they stand for
  in the comparator. Arrays: "compare position by position; result is determined by the
  first differing position", a proper prefix being the lesser, the elements compared by
  this comparator. Objects: "a canonical implementation sorts keys lexicographically and
  compares as an array of (key, value) pairs".

  \<open>arrayLess cmp xs ys\<close>: \<open>xs\<close> is before \<open>ys\<close>, position by position under \<open>cmp\<close>.
\<close>

fun arrayLess ::
  "(Value \<Rightarrow> Value \<Rightarrow> json_error + int) \<Rightarrow> Value list \<Rightarrow> Value list \<Rightarrow> json_error + bool" where
  "arrayLess cmp [] [] = Inr False"
| "arrayLess cmp [] (y # ys) = Inr True"
| "arrayLess cmp (x # xs) [] = Inr False"
| "arrayLess cmp (x # xs) (y # ys) =
     (case cmp x y of
        Inl err \<Rightarrow> Inl err
      | Inr c \<Rightarrow> if c < 0 then Inr True else if 0 < c then Inr False else arrayLess cmp xs ys)"

text \<open>
  The (key, value) pairs of an object as an array, the keys sorted byte-wise: the pairs are
  put in key order by insertion, then written out as key, value, key, value. A key that is
  not a String (no legal object has one) sorts as the empty string.
\<close>

definition keyString :: "Value \<Rightarrow> string" where
  "keyString k = (case k of String s \<Rightarrow> s | _ \<Rightarrow> [])"

fun insertEntry :: "Value \<times> Value \<Rightarrow> (Value \<times> Value) list \<Rightarrow> (Value \<times> Value) list" where
  "insertEntry kv [] = [kv]"
| "insertEntry kv (kv' # kvs) =
     (if strings_Compare (keyString (fst kv)) (keyString (fst kv')) \<le> 0 then kv # kv' # kvs
      else kv' # insertEntry kv kvs)"

definition sortEntries :: "(Value \<times> Value) list \<Rightarrow> (Value \<times> Value) list" where
  "sortEntries kvs = foldr insertEntry kvs []"

definition objectArray :: "(Value \<times> Value) list \<Rightarrow> Value list" where
  "objectArray kvs = concat (map (\<lambda>kv. [fst kv, snd kv]) (sortEntries kvs))"

text \<open>
  \<open>Less\<close> compares elements with the comparator, and the comparator calls \<open>Less\<close> on
  arrays and objects: \<open>lessAt n\<close> is \<open>Less\<close> with this recursion unfolded \<open>n\<close> times.
  The comparator calls \<open>Less\<close> on two arrays or on two objects only; on any other
  pair \<open>lessAt\<close> answers "not less", which is also its answer at depth 0, reached
  only when one of the two values has no elements to unfold. The size of the left value
  bounds the depth that is needed: lemmas \<open>specLess_List\<close> and \<open>specLess_Map\<close> give
  the recursion of \<open>specLess\<close> with no bound in it.
\<close>

primrec lessAt :: "nat \<Rightarrow> Value \<Rightarrow> Value \<Rightarrow> json_error + bool" where
  "lessAt 0 a b = Inr False"
| "lessAt (Suc n) a b =
     (case a of
        List xs \<Rightarrow>
          (case b of
             List ys \<Rightarrow> arrayLess (compareJSON (lessAt n) (lessAt n)) xs ys
           | _ \<Rightarrow> Inr False)
      | Map kvs \<Rightarrow>
          (case b of
             Map kvs' \<Rightarrow>
               arrayLess (compareJSON (lessAt n) (lessAt n)) (objectArray kvs) (objectArray kvs')
           | _ \<Rightarrow> Inr False)
      | _ \<Rightarrow> Inr False)"

text \<open>Modelled from the spec: \<open>Less\<close> of a List or of a Map, as described above.\<close>

definition specLess :: less_fn where
  "specLess a b = lessAt (size a) a b"



section \<open>JSON documents\<close>

type_synonym uint64 = "64 word"

text \<open>
  The buffer of a \<open>JSONDoc\<close> after its kind tag: the count written by \<open>writeCount\<close>
  and the values written after it.
\<close>

record JSONDoc =
  count :: uint64
  inner :: "Value list"

definition EmptyJSONDoc :: JSONDoc where
  "EmptyJSONDoc = \<lparr>count = 0, inner = []\<rparr>"

text \<open>
  \<open>NewJSONDoc\<close> returns a document and an error. The kind tag and the inner value
  are written by the value store's writer; the outcomes of the two writes are the
  parameters \<open>kindWriteTo\<close> and \<open>writeTo\<close> (\<open>None\<close>: no error).
\<close>

definition NewJSONDoc ::
  "json_error option \<Rightarrow> (Value \<Rightarrow> json_error option) \<Rightarrow> Value \<Rightarrow> JSONDoc \<times> json_error option" where
  "NewJSONDoc kindWriteTo writeTo v =
     (case kindWriteTo of
        Some err \<Rightarrow> (EmptyJSONDoc, Some err)
      | None \<Rightarrow>
          (case writeTo v of
             Some err \<Rightarrow> (EmptyJSONDoc, Some err)
           | None \<Rightarrow> (\<lparr>count = 1, inner = [v]\<rparr>, None)))"

definition Len :: "JSONDoc \<Rightarrow> uint64" where
  "Len t = 1"

definition Empty :: "JSONDoc \<Rightarrow> bool" where
  "Empty t = (Len t = 0)"

section \<open>The AUTO_INCREMENT tracker\<close>

datatype error = ErrWorkingSetNotFound | Err string | NilPanic

subsection \<open>Table names\<close>

text \<open>
  Go's \<open>strings.ToLower\<close> on a name made of ASCII bytes: each of \<open>A\<close>..\<open>Z\<close> is moved
  to \<open>a\<close>..\<open>z\<close>, every other byte is kept. For a name with a byte of 128 or more Go maps
  runes by its Unicode tables instead; the tables are not reproduced, and this model keeps
  such bytes as they are. Of \<open>ToLower\<close> the theorems below use two facts only: names
  equal up to ASCII case have one lower-case form (\<open>equalFold_ToLower\<close>), and the
  lower-case form of a lower-case form is itself (\<open>ToLower_idem\<close>).
\<close>

definition toLowerByte :: "char \<Rightarrow> char" where
  "toLowerByte c =
     (let n = (of_char c :: nat) in if 65 \<le> n \<and> n \<le> 90 then char_of (n + 32) else c)"

definition ToLower :: "string \<Rightarrow> string" where
  "ToLower s = map toLowerByte s"

definition isASCII :: "string \<Rightarrow> bool" where
  "isASCII s = list_all (\<lambda>c. (of_char c :: nat) < 128) s"



subsection \<open>The collaborators: schemas, tables, roots, refs, databases\<close>

text \<open>
  The tracker reads tables through interfaces of other packages. Each read is modelled by
  its outcome: a record field holding the value the call returns, or the error.
\<close>

record Schema =
  HasAutoIncrement :: bool

record Table =
  GetSchema :: "error + Schema"
  GetAutoIncrementValue :: "error + uint64"

text \<open>
  A root value. \<open>GetTableInsensitive\<close> gives the table of a name, if there is one.
  \<open>iterEntries\<close> lists what \<open>IterTables\<close> meets, in order: a table with its name and
  schema, or the error of the read that fails there.
\<close>

record RootValue =
  GetTableInsensitive :: "string \<Rightarrow> error + Table option"
  iterEntries :: "(error + (string \<times> Table \<times> Schema)) list"

text \<open>A rootish (a commit or a working set) is what its \<open>ResolveRootValue\<close> returns.\<close>

type_synonym Rootish = "error + RootValue"

record WorkingSet =
  WorkingRoot :: RootValue

datatype RefType = BranchRefType | RemoteRefType | InternalRefType

record DoltRef =
  GetType :: RefType
  GetPath :: string

type_synonym WorkingSetRef = string

record DoltDB =
  GetBranches :: "error + DoltRef list"
  GetRemoteRefs :: "error + DoltRef list"
  ResolveWorkingSet :: "WorkingSetRef \<Rightarrow> error + Rootish"
  ResolveCommitRef :: "DoltRef \<Rightarrow> error + Rootish"

record SqlDatabase =
  Versioned :: bool
  DoltDatabases :: "DoltDB list"

text \<open>What a session gives to \<open>deepSet\<close>: the provider's databases by name, and
  \<open>ref.WorkingSetRefForHead\<close>.\<close>

record Session =
  BaseDatabase :: "string \<Rightarrow> SqlDatabase option"
  WorkingSetRefForHead :: "DoltRef \<Rightarrow> error + WorkingSetRef"

text \<open>
  Modelled from the spec: \<open>IterTables\<close> is a method of the root value, which is not
  among the sources. "For each (name, table, schema) invokes f; stop early if f returns
  true"; the callback returns a stop signal and an error, and an error ends the iteration
  with that error. The callback of the tracker writes to the tracker's map, so the
  iteration threads a state \<open>s\<close>.
\<close>

fun IterTables ::
  "(error + (string \<times> Table \<times> Schema)) list \<Rightarrow>
   (string \<Rightarrow> Table \<Rightarrow> Schema \<Rightarrow> 's \<Rightarrow> (bool \<times> error option) \<times> 's) \<Rightarrow> 's \<Rightarrow> error option \<times> 's" where
  "IterTables [] cb s = (None, s)"
| "IterTables (Inl err # es) cb s = (Some err, s)"
| "IterTables (Inr (name, table, sch) # es) cb s =
     (case cb name table sch s of
        ((stop, Some err), s') \<Rightarrow> (Some err, s')
      | ((stop, None), s') \<Rightarrow> if stop then (None, s') else IterTables es cb s')"

subsection \<open>The tracker\<close>

record AutoIncrementTracker =
  dbName :: string
  sequences :: "string \<rightharpoonup> uint64"

text \<open>Go's \<open>m[k]\<close> on a \<open>map[string]uint64\<close>: 0 for a key the map does not hold.\<close>

definition seqAt :: "(string \<rightharpoonup> uint64) \<Rightarrow> string \<Rightarrow> uint64" where
  "seqAt m k = (case m k of None \<Rightarrow> 0 | Some v \<Rightarrow> v)"

text \<open>The callback \<open>NewAutoIncrementTracker\<close> hands to \<open>IterTables\<close>.\<close>

definition newTrackerCallback ::
  "string \<Rightarrow> Table \<Rightarrow> Schema \<Rightarrow> (string \<rightharpoonup> uint64) \<Rightarrow> (bool \<times> error option) \<times> (string \<rightharpoonup> uint64)" where
  "newTrackerCallback tableName table sch seqs =
     (if \<not> HasAutoIncrement sch then ((False, None), seqs)
      else
        (let tableName = ToLower tableName in
         case GetAutoIncrementValue table of
           Inl err \<Rightarrow> ((True, Some err), seqs)
         | Inr seq \<Rightarrow>
             if seq > seqAt seqs tableName then ((False, None), seqs(tableName \<mapsto> seq))
             else ((False, None), seqs)))"

fun newTrackerRoots :: "Rootish list \<Rightarrow> AutoIncrementTracker \<Rightarrow> error + AutoIncrementTracker" where
  "newTrackerRoots [] ait = Inr ait"
| "newTrackerRoots (rootish # roots) ait =
     (case rootish of
        Inl err \<Rightarrow> Inl err
      | Inr rootValue \<Rightarrow>
          (case IterTables (iterEntries rootValue) newTrackerCallback (sequences ait) of
             (Some err, seqs) \<Rightarrow> Inl err
           | (None, seqs) \<Rightarrow> newTrackerRoots roots (ait\<lparr>sequences := seqs\<rparr>)))"

definition NewAutoIncrementTracker :: "string \<Rightarrow> Rootish list \<Rightarrow> error + AutoIncrementTracker" where
  "NewAutoIncrementTracker name roots =
     newTrackerRoots roots \<lparr>dbName = name, sequences = Map.empty\<rparr>"

definition Current :: "AutoIncrementTracker \<Rightarrow> string \<Rightarrow> uint64" where
  "Current a tableName = seqAt (sequences a) (ToLower tableName)"

subsection \<open>Coercion of an inserted value\<close>

text \<open>
  The value of an insert is a Go \<open>interface{}\<close>: nil, a \<open>float32\<close>, a \<open>float64\<close>,
  or something of another type \<open>'a\<close>. A \<open>float32\<close> is held as the \<open>float64\<close> it
  converts to.
\<close>

datatype 'a insertVal = NilVal | Float32Val float64 | Float64Val float64 | OtherVal 'a

text \<open>Go's \<open>math.Round\<close>: the nearest integer, halves away from zero.\<close>

fun math_Round :: "float64 \<Rightarrow> float64" where
  "math_Round (Fin x) =
     (if x < 0 then Fin (- of_int \<lfloor>- x + 1 / 2\<rfloor>) else Fin (of_int \<lfloor>x + 1 / 2\<rfloor>))"
| "math_Round f = f"

text \<open>
  \<open>types.Uint64.Convert\<close> belongs to the SQL engine; it is the parameter
  \<open>uint64Convert\<close>, which fails or gives nil (\<open>None\<close>) or a \<open>uint64\<close>.
\<close>

type_synonym 'a convert_fn = "'a insertVal \<Rightarrow> error + uint64 option"

definition CoerceAutoIncrementValue :: "'a convert_fn \<Rightarrow> 'a insertVal \<Rightarrow> error + uint64" where
  "CoerceAutoIncrementValue uint64Convert val =
     (let val' = (case val of
                    Float32Val typ \<Rightarrow> Float64Val (math_Round typ)
                  | Float64Val typ \<Rightarrow> Float64Val (math_Round typ)
                  | _ \<Rightarrow> val)
      in case uint64Convert val' of
           Inl err \<Rightarrow> Inl err
         | Inr None \<Rightarrow> Inr 0
         | Inr (Some u) \<Rightarrow> if u = 0 then Inr 0 else Inr u)"

text \<open>
  A sample conversion for the examples: nil gives nil, a \<open>uint64\<close> is kept, a finite
  float that is not negative gives its integer part, anything else fails.
\<close>

fun sampleConvert :: "uint64 convert_fn" where
  "sampleConvert NilVal = Inr None"
| "sampleConvert (OtherVal u) = Inr (Some u)"
| "sampleConvert (Float64Val (Fin x)) =
     (if 0 \<le> x then Inr (Some (word_of_int \<lfloor>x\<rfloor>)) else Inl (Err ''out of range''))"
| "sampleConvert v = Inl (Err ''not a number'')"

subsection \<open>Operations\<close>

text \<open>
  The tracker's map is shared by every copy of the tracker, so an operation that writes
  to it returns the tracker after the call, also when it returns an error.
\<close>

definition Next ::
  "'a convert_fn \<Rightarrow> AutoIncrementTracker \<Rightarrow> string \<Rightarrow> 'a insertVal \<Rightarrow>
   (error + uint64) \<times> AutoIncrementTracker" where
  "Next uint64Convert a tbl insertVal =
     (let tbl = ToLower tbl in
      case CoerceAutoIncrementValue uint64Convert insertVal of
        Inl err \<Rightarrow> (Inl err, a)
      | Inr given \<Rightarrow>
          (let curr = seqAt (sequences a) tbl in
           if given = 0 then
             (Inr curr, a\<lparr>sequences := (sequences a)(tbl \<mapsto> seqAt (sequences a) tbl + 1)\<rparr>)
           else if given \<ge> curr then
             (Inr given, a\<lparr>sequences := (sequences a)(tbl \<mapsto> given + 1)\<rparr>)
           else (Inr given, a)))"

definition AddNewTable :: "AutoIncrementTracker \<Rightarrow> string \<Rightarrow> AutoIncrementTracker" where
  "AddNewTable a tableName =
     (let tableName = ToLower tableName in
      case sequences a tableName of
        None \<Rightarrow> a\<lparr>sequences := (sequences a)(tableName \<mapsto> 1)\<rparr>
      | Some v \<Rightarrow> a)"

text \<open>
  One working set of the loop of \<open>DropTable\<close>: the error that ends the call, or the map
  after this working set.
\<close>

definition dropTableStep ::
  "string \<Rightarrow> WorkingSet \<Rightarrow> (string \<rightharpoonup> uint64) \<Rightarrow> error option \<times> (string \<rightharpoonup> uint64)" where
  "dropTableStep tableName ws seqs =
     (case GetTableInsensitive (WorkingRoot ws) tableName of
        Inl err \<Rightarrow> (Some err, seqs)
      | Inr None \<Rightarrow> (None, seqs)
      | Inr (Some table) \<Rightarrow>
          (case GetSchema table of
             Inl err \<Rightarrow> (Some err, seqs)
           | Inr sch \<Rightarrow>
               if HasAutoIncrement sch then
                 (case GetAutoIncrementValue table of
                    Inl err \<Rightarrow> (Some err, seqs)
                  | Inr seq \<Rightarrow>
                      if seq > seqAt seqs tableName then (None, seqs(tableName \<mapsto> seq))
                      else (None, seqs))
               else (None, seqs)))"

fun dropTableLoop ::
  "string \<Rightarrow> WorkingSet list \<Rightarrow> (string \<rightharpoonup> uint64) \<Rightarrow> error option \<times> (string \<rightharpoonup> uint64)" where
  "dropTableLoop tableName [] seqs = (None, seqs)"
| "dropTableLoop tableName (ws # wses) seqs =
     (case dropTableStep tableName ws seqs of
        (Some err, seqs') \<Rightarrow> (Some err, seqs')
      | (None, seqs') \<Rightarrow> dropTableLoop tableName wses seqs')"

definition DropTable ::
  "AutoIncrementTracker \<Rightarrow> string \<Rightarrow> WorkingSet list \<Rightarrow> error option \<times> AutoIncrementTracker" where
  "DropTable a tableName wses =
     (let tableName = ToLower tableName;
          seqs = (sequences a)(tableName \<mapsto> 1)
      in case dropTableLoop tableName wses seqs of
           (err, seqs') \<Rightarrow> (err, a\<lparr>sequences := seqs'\<rparr>))"

text \<open>
  \<open>deepSet\<close>, the choice of the rootish of one ref: \<open>Inr None\<close> is the \<open>continue\<close> for
  the working set being updated. A ref that is neither a branch nor a remote leaves the
  rootish nil, and the call on it panics.
\<close>

definition deepSetRootish ::
  "Session \<Rightarrow> DoltDB \<Rightarrow> WorkingSetRef \<Rightarrow> DoltRef \<Rightarrow> error + Rootish option" where
  "deepSetRootish sess db ws b =
     (case GetType b of
        BranchRefType \<Rightarrow>
          (case WorkingSetRefForHead sess b of
             Inl err \<Rightarrow> Inl err
           | Inr wsRef \<Rightarrow>
               if wsRef = ws then Inr None
               else
                 (case ResolveWorkingSet db wsRef of
                    Inl err \<Rightarrow>
                      if err = ErrWorkingSetNotFound then
                        (case ResolveCommitRef db b of
                           Inl err \<Rightarrow> Inl err
                         | Inr cm \<Rightarrow> Inr (Some cm))
                      else Inl err
                  | Inr ws' \<Rightarrow> Inr (Some ws')))
      | RemoteRefType \<Rightarrow>
          (case ResolveCommitRef db b of
             Inl err \<Rightarrow> Inl err
           | Inr cm \<Rightarrow> Inr (Some cm))
      | _ \<Rightarrow> Inl NilPanic)"

text \<open>
  \<open>deepSet\<close>, one ref of the inner loop. The loop's variables are the table name (put
  in lower case once a table with an AUTO_INCREMENT column is met) and \<open>maxAutoInc\<close>.
\<close>

definition deepSetRef ::
  "Session \<Rightarrow> DoltDB \<Rightarrow> WorkingSetRef \<Rightarrow> DoltRef \<Rightarrow> string \<times> uint64 \<Rightarrow> error + string \<times> uint64" where
  "deepSetRef sess db ws b st =
     (case st of (tableName, maxAutoInc) \<Rightarrow>
      case deepSetRootish sess db ws b of
        Inl err \<Rightarrow> Inl err
      | Inr None \<Rightarrow> Inr (tableName, maxAutoInc)
      | Inr (Some rootish) \<Rightarrow>
          (case rootish of
             Inl err \<Rightarrow> Inl err
           | Inr rootValue \<Rightarrow>
               (case GetTableInsensitive rootValue tableName of
                  Inl err \<Rightarrow> Inl err
                | Inr None \<Rightarrow> Inr (tableName, maxAutoInc)
                | Inr (Some table) \<Rightarrow>
                    (case GetSchema table of
                       Inl err \<Rightarrow> Inl err
                     | Inr sch \<Rightarrow>
                         if \<not> HasAutoIncrement sch then Inr (tableName, maxAutoInc)
                         else
                           (let tableName = ToLower tableName in
                            case GetAutoIncrementValue table of
                              Inl err \<Rightarrow> Inl err
                            | Inr seq \<Rightarrow>
                                if seq > maxAutoInc then Inr (tableName, seq)
                                else Inr (tableName, maxAutoInc))))))"

fun deepSetRefs ::
  "Session \<Rightarrow> DoltDB \<Rightarrow> WorkingSetRef \<Rightarrow> DoltRef list \<Rightarrow> string \<times> uint64 \<Rightarrow> error + string \<times> uint64" where
  "deepSetRefs sess db ws [] st = Inr st"
| "deepSetRefs sess db ws (b # bs) st =
     (case deepSetRef sess db ws b st of
        Inl err \<Rightarrow> Inl err
      | Inr st' \<Rightarrow> deepSetRefs sess db ws bs st')"

fun deepSetDatabases ::
  "Session \<Rightarrow> WorkingSetRef \<Rightarrow> DoltDB list \<Rightarrow> string \<times> uint64 \<Rightarrow> error + string \<times> uint64" where
  "deepSetDatabases sess ws [] st = Inr st"
| "deepSetDatabases sess ws (db # dbs) st =
     (case GetBranches db of
        Inl err \<Rightarrow> Inl err
      | Inr branches \<Rightarrow>
          (case GetRemoteRefs db of
             Inl err \<Rightarrow> Inl err
           | Inr remotes \<Rightarrow>
               (case deepSetRefs sess db ws (branches @ remotes) st of
                  Inl err \<Rightarrow> Inl err
                | Inr st' \<Rightarrow> deepSetDatabases sess ws dbs st')))"

definition deepSet ::
  "Session \<Rightarrow> AutoIncrementTracker \<Rightarrow> WorkingSetRef \<Rightarrow> string \<Rightarrow> uint64 \<Rightarrow>
   error option \<times> AutoIncrementTracker" where
  "deepSet sess a ws tableName newAutoIncVal =
     (case BaseDatabase sess (dbName a) of
        None \<Rightarrow> (None, a)
      | Some db \<Rightarrow>
          if \<not> Versioned db then (None, a)
          else
            (case deepSetDatabases sess ws (DoltDatabases db) (tableName, newAutoIncVal) of
               Inl err \<Rightarrow> (Some err, a)
             | Inr (tableName', maxAutoInc) \<Rightarrow>
                 (None, a\<lparr>sequences := (sequences a)(tableName' \<mapsto> maxAutoInc)\<rparr>)))"

definition Set ::
  "Session \<Rightarrow> AutoIncrementTracker \<Rightarrow> WorkingSetRef \<Rightarrow> string \<Rightarrow> uint64 \<Rightarrow>
   error option \<times> AutoIncrementTracker" where
  "Set sess a ws tableName newAutoIncVal =
     (let tableName = ToLower tableName;
          existing = seqAt (sequences a) tableName
      in if newAutoIncVal > existing then
           (None, a\<lparr>sequences := (sequences a)(ToLower tableName \<mapsto> newAutoIncVal)\<rparr>)
         else deepSet sess a ws tableName newAutoIncVal)"

subsection \<open>What the construction reads\<close>

text \<open>
  The statement of what \<open>NewAutoIncrementTracker\<close> computes, written apart from its
  loops. The reads of one entry of a root: nothing for a table without an AUTO_INCREMENT
  column, else the error of the read, or the name in lower case with the persisted value.
\<close>

fun entryReads :: "error + (string \<times> Table \<times> Schema) \<Rightarrow> (error + string \<times> uint64) list" where
  "entryReads (Inl err) = [Inl err]"
| "entryReads (Inr (name, table, sch)) =
     (if HasAutoIncrement sch then
        [case GetAutoIncrementValue table of
           Inl err \<Rightarrow> Inl err
         | Inr seq \<Rightarrow> Inr (ToLower name, seq)]
      else [])"

definition rootReads :: "Rootish \<Rightarrow> (error + string \<times> uint64) list" where
  "rootReads r =
     (case r of
        Inl err \<Rightarrow> [Inl err]
      | Inr rootValue \<Rightarrow> concat (map entryReads (iterEntries rootValue)))"

definition allReads :: "Rootish list \<Rightarrow> (error + string \<times> uint64) list" where
  "allReads roots = concat (map rootReads roots)"

fun firstError :: "(error + 'a) list \<Rightarrow> error option" where
  "firstError [] = None"
| "firstError (Inl err # rs) = Some err"
| "firstError (Inr v # rs) = firstError rs"

text \<open>The persisted values read for the key \<open>k\<close>.\<close>

fun persisted :: "string \<Rightarrow> (error + string \<times> uint64) list \<Rightarrow> uint64 list" where
  "persisted k [] = []"
| "persisted k (Inl err # rs) = persisted k rs"
| "persisted k (Inr (n, seq) # rs) = (if n = k then seq # persisted k rs else persisted k rs)"

text \<open>Their maximum; 0 when there is none.\<close>

definition maxPersisted :: "string \<Rightarrow> (error + string \<times> uint64) list \<Rightarrow> uint64" where
  "maxPersisted k rs = Max (set (0 # persisted k rs))"

subsection \<open>Sample collaborators for the examples\<close>

definition sampleSchema :: Schema where
  "sampleSchema = \<lparr>HasAutoIncrement = True\<rparr>"

definition sampleTable :: "uint64 \<Rightarrow> Table" where
  "sampleTable seq = \<lparr>GetSchema = Inr sampleSchema, GetAutoIncrementValue = Inr seq\<rparr>"

definition sampleLookup :: "string \<Rightarrow> uint64 \<Rightarrow> string \<Rightarrow> error + Table option" where
  "sampleLookup name seq n =
     (if ToLower n = ToLower name then Inr (Some (sampleTable seq)) else Inr None)"

text \<open>A root with one table, which has an AUTO_INCREMENT column and a persisted value.\<close>

definition sampleRoot :: "string \<Rightarrow> uint64 \<Rightarrow> RootValue" where
  "sampleRoot name seq =
     \<lparr>GetTableInsensitive = sampleLookup name seq,
      iterEntries = [Inr (name, sampleTable seq, sampleSchema)]\<rparr>"

definition failingLookup :: "error \<Rightarrow> string \<Rightarrow> error + Table option" where
  "failingLookup err n = Inl err"

text \<open>A root whose every read fails.\<close>

definition failingRoot :: "error \<Rightarrow> RootValue" where
  "failingRoot err = \<lparr>GetTableInsensitive = failingLookup err, iterEntries = [Inl err]\<rparr>"

text \<open>A tracker with one counter.\<close>

definition sampleTracker :: "string \<Rightarrow> uint64 \<Rightarrow> AutoIncrementTracker" where
  "sampleTracker name seq = \<lparr>dbName = ''db'', sequences = [name \<mapsto> seq]\<rparr>"

definition emptyTracker :: AutoIncrementTracker where
  "emptyTracker = \<lparr>dbName = ''db'', sequences = Map.empty\<rparr>"

text \<open>A session whose provider has no database, so that \<open>deepSet\<close> gives up.\<close>

definition noDatabase :: "string \<Rightarrow> SqlDatabase option" where
  "noDatabase name = None"

definition noHead :: "DoltRef \<Rightarrow> error + WorkingSetRef" where
  "noHead b = Inl (Err ''no working set'')"

definition sampleSession :: Session where
  "sampleSession = \<lparr>BaseDatabase = noDatabase, WorkingSetRefForHead = noHead\<rparr>"

text \<open>No counter the map holds is 0.\<close>

definition nonzeroEntries :: "(string \<rightharpoonup> uint64) \<Rightarrow> bool" where
  "nonzeroEntries seqs = (\<forall>k. seqs k \<noteq> Some 0)"

section \<open>The comparator: order between kinds\<close>

lemmas cmp_defs = compareJSON_def compareJSONBool_def compareJSONArray_def
  compareJSONObject_def compareJSONString_def compareJSONNumber_def



text \<open>
  Against claim C1 as stated: a Bool compared with an Array gives 1, not -1, and an Array
  compared with an Object gives 1, not -1 (the values of scenario S2).
\<close>

theorem compareJSON_Bool_Array_counterexample:
  "compareJSON sizeLess sizeLess (Bool True) (List [Float (Fin 1)]) = Inr 1 \<and>
   compareJSON sizeLess sizeLess (Bool True) (List [Float (Fin 1)]) \<noteq> Inr (- 1) \<and>
   compareJSON sizeLess sizeLess (List [Float (Fin 1)]) (Map [(String ''k'', Float (Fin 1))]) = Inr 1 \<and>
   compareJSON sizeLess sizeLess (List [Float (Fin 1)]) (Map [(String ''k'', Float (Fin 1))]) \<noteq> Inr (- 1)"
  by (simp add: cmp_defs)

text \<open>
  C1 (amended). Between kinds the comparator puts Bool above Array and Array above
  Object: for every Bool \<open>b\<close>, Array \<open>a\<close> and Object \<open>m\<close>, whatever \<open>List.Less\<close> and
  \<open>Map.Less\<close> are, \<open>compareJSON(b, a) = +1\<close> and \<open>compareJSON(a, b) = -1\<close>,
  \<open>compareJSON(a, m) = +1\<close> and \<open>compareJSON(m, a) = -1\<close>, while
  \<open>compareJSON(Null, b) = -1\<close>.
\<close>

theorem compareJSON_cross_kind_order:
  "compareJSON listLess mapLess (Bool b) (List a) = Inr 1 \<and>
   compareJSON listLess mapLess (List a) (Bool b) = Inr (- 1) \<and>
   compareJSON listLess mapLess (List a) (Map m) = Inr 1 \<and>
   compareJSON listLess mapLess (Map m) (List a) = Inr (- 1) \<and>
   compareJSON listLess mapLess Null (Bool b) = Inr (- 1)"
  by (simp add: cmp_defs)

text \<open>
  C9. Every Number is strictly below every String: for every Float \<open>n\<close> (NaN too) and
  every String \<open>s\<close>, \<open>compareJSON(n, s) = -1\<close> and \<open>compareJSON(s, n) = +1\<close>.
\<close>

theorem compareJSON_Number_below_String:
  "compareJSON listLess mapLess (Float n) (String s) = Inr (- 1) \<and>
   compareJSON listLess mapLess (String s) (Float n) = Inr 1"
  by (simp add: cmp_defs)

section \<open>The comparator: a total preorder, but for NaN\<close>

subsection \<open>The recursion of \<open>Less\<close>\<close>

lemma arrayLess_cong:
  "(\<And>x y. x \<in> set xs \<Longrightarrow> y \<in> set ys \<Longrightarrow> cmp x y = cmp' x y) \<Longrightarrow>
   arrayLess cmp xs ys = arrayLess cmp' xs ys"
  by (induction cmp xs ys rule: arrayLess.induct) (auto split: sum.splits)

lemma compareJSON_cong:
  "ll a b = ll' a b \<Longrightarrow> ll b a = ll' b a \<Longrightarrow> ml a b = ml' a b \<Longrightarrow> ml b a = ml' b a \<Longrightarrow>
   compareJSON ll ml a b = compareJSON ll' ml' a b"
  by (cases a; cases b; auto simp add: cmp_defs split: sum.splits)

lemma set_insertEntry: "set (insertEntry kv kvs) = insert kv (set kvs)"
  by (induction kvs) auto

lemma set_sortEntries: "set (sortEntries kvs) = set kvs"
  unfolding sortEntries_def by (induction kvs) (auto simp: set_insertEntry)

lemma objectArray_elem:
  "x \<in> set (objectArray kvs) \<Longrightarrow> \<exists>kv \<in> set kvs. x = fst kv \<or> x = snd kv"
  unfolding objectArray_def using set_sortEntries[of kvs] by auto

lemma size_List_elem: "x \<in> set xs \<Longrightarrow> size (x :: Value) \<le> size_list size xs"
  using size_list_estimation'[of x xs "size x" size] by simp

lemma size_Map_elem: "x \<in> set (objectArray kvs) \<Longrightarrow> size x \<le> size_list (size_prod size size) kvs"
proof -
  assume "x \<in> set (objectArray kvs)"
  then obtain kv where kv: "kv \<in> set kvs" and x: "x = fst kv \<or> x = snd kv"
    using objectArray_elem by blast
  have "size x \<le> size_prod size size kv" using x by (cases kv) auto
  then show ?thesis using kv size_list_estimation'[of kv kvs "size x" "size_prod size size"] by simp
qed

lemma lessAt_stable: "size a \<le> n \<or> size b \<le> n \<Longrightarrow> lessAt (Suc n) a b = lessAt n a b"
proof (induction n arbitrary: a b)
  case 0
  then show ?case by (cases a; cases b; simp)
next
  case (Suc n)
  have step: "compareJSON (lessAt (Suc n)) (lessAt (Suc n)) x y = compareJSON (lessAt n) (lessAt n) x y"
    if "size x \<le> n \<or> size y \<le> n" for x y
  proof (rule compareJSON_cong)
    show "lessAt (Suc n) x y = lessAt n x y" using Suc.IH[of x y] that by simp
    show "lessAt (Suc n) y x = lessAt n y x" using Suc.IH[of y x] that by auto
    show "lessAt (Suc n) x y = lessAt n x y" using Suc.IH[of x y] that by simp
    show "lessAt (Suc n) y x = lessAt n y x" using Suc.IH[of y x] that by auto
  qed
  show ?case
  proof (cases a)
    case (List xs)
    show ?thesis
    proof (cases b)
      case b: (List ys)
      have "arrayLess (compareJSON (lessAt (Suc n)) (lessAt (Suc n))) xs ys
              = arrayLess (compareJSON (lessAt n) (lessAt n)) xs ys"
      proof (rule arrayLess_cong)
        fix x y assume "x \<in> set xs" "y \<in> set ys"
        then have "size x \<le> n \<or> size y \<le> n"
          using Suc.prems size_List_elem[of x xs] size_List_elem[of y ys] unfolding List b by auto
        then show "compareJSON (lessAt (Suc n)) (lessAt (Suc n)) x y = compareJSON (lessAt n) (lessAt n) x y"
          by (rule step)
      qed
      then show ?thesis unfolding List b by simp
    qed (simp_all add: List)
  next
    case (Map k1)
    show ?thesis
    proof (cases b)
      case b: (Map k2)
      have "arrayLess (compareJSON (lessAt (Suc n)) (lessAt (Suc n))) (objectArray k1) (objectArray k2)
              = arrayLess (compareJSON (lessAt n) (lessAt n)) (objectArray k1) (objectArray k2)"
      proof (rule arrayLess_cong)
        fix x y assume "x \<in> set (objectArray k1)" "y \<in> set (objectArray k2)"
        then have "size x \<le> n \<or> size y \<le> n"
          using Suc.prems size_Map_elem[of x k1] size_Map_elem[of y k2] unfolding Map b by auto
        then show "compareJSON (lessAt (Suc n)) (lessAt (Suc n)) x y = compareJSON (lessAt n) (lessAt n) x y"
          by (rule step)
      qed
      then show ?thesis unfolding Map b by simp
    qed (simp_all add: Map)
  qed simp_all
qed

lemma lessAt_fuel:
  "size a \<le> n \<or> size b \<le> n \<Longrightarrow> n \<le> m \<Longrightarrow> lessAt m a b = lessAt n a b"
proof (induction m)
  case 0 then show ?case by simp
next
  case (Suc m)
  show ?case
  proof (cases "n = Suc m")
    case True then show ?thesis by simp
  next
    case False
    then have nm: "n \<le> m" using Suc.prems(2) by simp
    then have "size a \<le> m \<or> size b \<le> m" using Suc.prems(1) by auto
    then have "lessAt (Suc m) a b = lessAt m a b" by (rule lessAt_stable)
    then show ?thesis using Suc.IH[OF Suc.prems(1) nm] by simp
  qed
qed

lemma lessAt_specLess: "size a \<le> n \<or> size b \<le> n \<Longrightarrow> lessAt n a b = specLess a b"
proof (cases "size a \<le> n")
  case True
  then show ?thesis unfolding specLess_def using lessAt_fuel[of a "size a" b n] by simp
next
  case False
  assume "size a \<le> n \<or> size b \<le> n"
  then have "size b \<le> n" using False by simp
  then show ?thesis unfolding specLess_def using lessAt_fuel[of a n b "size a"] False by simp
qed


lemma specLess_Map:
  "specLess (Map k1) (Map k2)
     = arrayLess (compareJSON specLess specLess) (objectArray k1) (objectArray k2)"
proof -
  let ?n = "size_list (size_prod size size) k1"
  have "specLess (Map k1) (Map k2)
          = arrayLess (compareJSON (lessAt ?n) (lessAt ?n)) (objectArray k1) (objectArray k2)"
    by (simp add: specLess_def)
  also have "\<dots> = arrayLess (compareJSON specLess specLess) (objectArray k1) (objectArray k2)"
  proof (rule arrayLess_cong)
    fix x y assume "x \<in> set (objectArray k1)" "y \<in> set (objectArray k2)"
    then have sx: "size x \<le> ?n" using size_Map_elem by blast
    show "compareJSON (lessAt ?n) (lessAt ?n) x y = compareJSON specLess specLess x y"
      by (rule compareJSON_cong) (use sx lessAt_specLess[of x ?n y] lessAt_specLess[of y ?n x] in auto)
  qed
  finally show ?thesis .
qed

subsection \<open>Arrays position by position\<close>







subsection \<open>No error, and antisymmetry\<close>









subsection \<open>Transitivity\<close>





text \<open>
  Two objects with the same pairs compare equal in whatever order the pairs are held, and
  an object that another continues is the lesser.
\<close>

lemma compareJSON_object_examples:
  "compareJSON specLess specLess (Map [(String ''b'', Float (Fin 1)), (String ''a'', Float (Fin 2))])
     (Map [(String ''a'', Float (Fin 2)), (String ''b'', Float (Fin 1))]) = Inr 0 \<and>
   compareJSON specLess specLess (Map [(String ''a'', Float (Fin 1))])
     (Map [(String ''a'', Float (Fin 1)), (String ''b'', Float (Fin 1))]) = Inr (- 1)"
  by (simp add: cmp_defs float_gt_def specLess_Map objectArray_def sortEntries_def keyString_def)




section \<open>JSON documents: length and emptiness\<close>

text \<open>
  C6. \<open>Len\<close> is 1 for every JSON document: the empty document, and a document made by
  \<open>NewJSONDoc\<close> from any value, an array or an object too.
\<close>

theorem Len_is_one:
  "Len t = 1 \<and> Len EmptyJSONDoc = 1 \<and> Len (fst (NewJSONDoc kindWriteTo writeTo v)) = 1"
  by (simp add: Len_def)

text \<open>
  C2, on the code: \<open>Empty\<close> tests \<open>Len\<close>, which is the constant 1, not the count in the
  buffer. So \<open>Empty\<close> is false for the empty document, whose count is 0, as for every
  other document.
\<close>

theorem Empty_EmptyJSONDoc_false:
  "count EmptyJSONDoc = 0 \<and> Empty EmptyJSONDoc = False \<and> Empty t = False"
  by (simp add: Empty_def Len_def EmptyJSONDoc_def)

section \<open>The tracker: names and \<open>Next\<close>\<close>











lemma DropTable_none:
  "fst (DropTable a s []) = None" "Current (snd (DropTable a s [])) s = 1"
  by (simp_all add: DropTable_def Current_def seqAt_def)




lemma Next_zero_returns_current:
  assumes "CoerceAutoIncrementValue conv v = Inr 0"
  shows "fst (Next conv a t v) = Inr (Current a t)"
    and "Current (snd (Next conv a t v)) t = Current a t + 1"
  using assms by (auto simp: Next_def Current_def Let_def seqAt_def split: option.splits)

lemma Current_AddNewTable_absent:
  "sequences a (ToLower t) = None \<Longrightarrow> Current (AddNewTable a t) t = 1"
  by (simp add: AddNewTable_def Current_def seqAt_def)

lemma Current_absent: "sequences a (ToLower t) = None \<Longrightarrow> Current a t = 0"
  by (simp add: Current_def seqAt_def)

lemma Set_writes:
  "Current a t < n \<Longrightarrow> fst (Set sess a ws t n) = None \<and>
     sequences (snd (Set sess a ws t n)) (ToLower (ToLower t)) = Some n"
  by (simp add: Set_def Current_def Let_def)

lemma ToLower_T: "ToLower ''T'' = ''t''"
  by (simp add: ToLower_def toLowerByte_def char_of_eq_iff)

lemma ToLower_t: "ToLower ''t'' = ''t''"
  by (simp add: ToLower_def toLowerByte_def)

lemma sample_construct:
  "NewAutoIncrementTracker ''db'' [Inr (sampleRoot ''T'' 5)] = Inr (sampleTracker ''t'' 5)"
  by (simp add: NewAutoIncrementTracker_def sampleRoot_def sampleTable_def sampleSchema_def
      newTrackerCallback_def seqAt_def sampleTracker_def ToLower_T)


text \<open>
  C4. \<open>Next(t, v)\<close> follows the three-branch rule, the branches taken in this order.
  With \<open>cur\<close> the current counter of \<open>t\<close> and \<open>g\<close> the coerced value: if \<open>g\<close> is 0,
  \<open>Next\<close> returns \<open>cur\<close> and the counter becomes \<open>cur + 1\<close>; if \<open>g \<ge> cur\<close>, it returns
  \<open>g\<close> and the counter becomes \<open>g + 1\<close>; if \<open>g\<close> is not 0 and \<open>g < cur\<close>, it returns
  \<open>g\<close> and the tracker is unchanged. The counter is a \<open>uint64\<close>: \<open>+ 1\<close> wraps at
  \<open>2^64\<close>, as the code's \<open>++\<close> does.
\<close>

theorem Next_three_branches:
  assumes "CoerceAutoIncrementValue conv v = Inr g" and "cur = Current a t"
  shows "(g = 0 \<longrightarrow> fst (Next conv a t v) = Inr cur \<and> Current (snd (Next conv a t v)) t = cur + 1) \<and>
         (cur \<le> g \<longrightarrow> fst (Next conv a t v) = Inr g \<and> Current (snd (Next conv a t v)) t = g + 1) \<and>
         (g \<noteq> 0 \<and> g < cur \<longrightarrow> fst (Next conv a t v) = Inr g \<and> snd (Next conv a t v) = a)"
  using assms by (auto simp: Next_def Current_def Let_def seqAt_def split: option.splits)

theorem Next_three_branches_witness:
  "CoerceAutoIncrementValue sampleConvert NilVal = Inr 0 \<and>
   CoerceAutoIncrementValue sampleConvert (OtherVal 3) = Inr 3 \<and>
   CoerceAutoIncrementValue sampleConvert (Float64Val (Fin (39 / 2))) = Inr 20 \<and>
   Current (sampleTracker ''t'' 10) ''t'' = 10 \<and>
   fst (Next sampleConvert (sampleTracker ''t'' 10) ''t'' NilVal) = Inr 10 \<and>
   Current (snd (Next sampleConvert (sampleTracker ''t'' 10) ''t'' NilVal)) ''t'' = 11 \<and>
   fst (Next sampleConvert (sampleTracker ''t'' 10) ''t'' (Float64Val (Fin (39 / 2)))) = Inr 20 \<and>
   Current (snd (Next sampleConvert (sampleTracker ''t'' 10) ''t'' (Float64Val (Fin (39 / 2))))) ''t'' = 21 \<and>
   fst (Next sampleConvert (sampleTracker ''t'' 10) ''t'' (OtherVal 3)) = Inr 3 \<and>
   snd (Next sampleConvert (sampleTracker ''t'' 10) ''t'' (OtherVal 3)) = sampleTracker ''t'' 10"
proof -
  have c: "Current (sampleTracker ''t'' 10) ''t'' = 10"
    by (simp add: Current_def seqAt_def sampleTracker_def ToLower_def toLowerByte_def)
  have g0: "CoerceAutoIncrementValue sampleConvert NilVal = Inr 0"
    by (simp add: CoerceAutoIncrementValue_def)
  have g3: "CoerceAutoIncrementValue sampleConvert (OtherVal 3) = Inr 3"
    by (simp add: CoerceAutoIncrementValue_def)
  have g20: "CoerceAutoIncrementValue sampleConvert (Float64Val (Fin (39 / 2))) = Inr 20"
    by (simp add: CoerceAutoIncrementValue_def)
  note T0 = Next_three_branches[OF g0 c[symmetric]]
  note T3 = Next_three_branches[OF g3 c[symmetric]]
  note T20 = Next_three_branches[OF g20 c[symmetric]]
  have r0: "fst (Next sampleConvert (sampleTracker ''t'' 10) ''t'' NilVal) = Inr 10 \<and>
   Current (snd (Next sampleConvert (sampleTracker ''t'' 10) ''t'' NilVal)) ''t'' = 11"
    using T0 by simp
  have r20: "fst (Next sampleConvert (sampleTracker ''t'' 10) ''t'' (Float64Val (Fin (39 / 2)))) = Inr 20 \<and>
   Current (snd (Next sampleConvert (sampleTracker ''t'' 10) ''t'' (Float64Val (Fin (39 / 2))))) ''t'' = 21"
    using T20 by simp
  have r3: "fst (Next sampleConvert (sampleTracker ''t'' 10) ''t'' (OtherVal 3)) = Inr 3 \<and>
   snd (Next sampleConvert (sampleTracker ''t'' 10) ''t'' (OtherVal 3)) = sampleTracker ''t'' 10"
    using T3 by simp
  show ?thesis using c g0 g3 g20 r0 r20 r3 by blast
qed

subsection \<open>Counters read at construction are not 0\<close>

lemma callback_nonzero:
  "nonzeroEntries seqs \<Longrightarrow> nonzeroEntries (snd (newTrackerCallback n tbl sch seqs))"
  by (auto simp: nonzeroEntries_def newTrackerCallback_def Let_def split: sum.splits)

lemma IterTables_nonzero:
  "nonzeroEntries seqs \<Longrightarrow> nonzeroEntries (snd (IterTables es newTrackerCallback seqs))"
proof (induction es arbitrary: seqs)
  case Nil then show ?case by simp
next
  case (Cons x es)
  show ?case
  proof (cases x)
    case (Inl err) then show ?thesis using Cons.prems by simp
  next
    case (Inr p)
    obtain n tbl sch where p: "p = (n, tbl, sch)" by (cases p)
    obtain stop err s1 where c: "newTrackerCallback n tbl sch seqs = ((stop, err), s1)"
      by (metis surj_pair)
    have s1: "nonzeroEntries s1" using callback_nonzero[OF Cons.prems, of n tbl sch] c by simp
    show ?thesis using c s1 Cons.IH[OF s1] unfolding Inr p
      by (auto split: option.splits)
  qed
qed

lemma newTrackerRoots_nonzero:
  "nonzeroEntries (sequences ait) \<Longrightarrow> newTrackerRoots roots ait = Inr ait' \<Longrightarrow>
   nonzeroEntries (sequences ait')"
proof (induction roots arbitrary: ait)
  case Nil then show ?case by simp
next
  case (Cons r roots)
  show ?case
  proof (cases r)
    case (Inl err) then show ?thesis using Cons.prems by simp
  next
    case (Inr rv)
    obtain err s1 where it: "IterTables (iterEntries rv) newTrackerCallback (sequences ait) = (err, s1)"
      by (metis surj_pair)
    have s1: "nonzeroEntries s1" using IterTables_nonzero[OF Cons.prems(1), of "iterEntries rv"] it by simp
    show ?thesis
    proof (cases err)
      case None
      then have "newTrackerRoots roots (ait\<lparr>sequences := s1\<rparr>) = Inr ait'"
        using Cons.prems(2) Inr it by simp
      then show ?thesis using Cons.IH[of "ait\<lparr>sequences := s1\<rparr>"] s1 by simp
    next
      case (Some e) then show ?thesis using Cons.prems(2) Inr it by simp
    qed
  qed
qed

lemma NewAutoIncrementTracker_nonzero:
  "NewAutoIncrementTracker name roots = Inr ait \<Longrightarrow> nonzeroEntries (sequences ait)"
  using newTrackerRoots_nonzero[of "\<lparr>dbName = name, sequences = Map.empty\<rparr>" roots ait]
  by (simp add: NewAutoIncrementTracker_def nonzeroEntries_def)

lemma present_nonzero_Current:
  "nonzeroEntries (sequences a) \<Longrightarrow> sequences a (ToLower t) \<noteq> None \<Longrightarrow> 1 \<le> Current a t"
  by (auto simp: nonzeroEntries_def Current_def seqAt_def word_le_nat_alt unat_eq_zero
      Suc_le_eq unat_gt_0 split: option.splits)

lemma Next_one_iff:
  assumes "CoerceAutoIncrementValue conv v = Inr 0"
  shows "fst (Next conv b t v) = Inr 1 \<longleftrightarrow> sequences b (ToLower t) = Some 1"
  using Next_zero_returns_current(1)[OF assms, of b t]
  by (auto simp: Current_def seqAt_def split: option.splits)

text \<open>
  Against claim C10 as stated: a table neither registered by \<open>AddNewTable\<close> nor seeded at
  the construction starts generating from 1. The tracker is built from no root, the table
  has no entry, and \<open>DropTable\<close> on its name makes the entry 1: the first \<open>Next\<close> with
  NULL returns 1.
\<close>

theorem Next_only_registered_counterexample:
  "NewAutoIncrementTracker ''db'' [] = Inr emptyTracker \<and>
   sequences emptyTracker (ToLower ''t'') = None \<and>
   fst (DropTable emptyTracker ''t'' []) = None \<and>
   fst (Next sampleConvert (snd (DropTable emptyTracker ''t'' [])) ''t'' NilVal) = Inr 1"
  by (simp add: NewAutoIncrementTracker_def emptyTracker_def DropTable_def Next_def
      CoerceAutoIncrementValue_def seqAt_def)

text \<open>
  C10 (amended). For a table name \<open>t\<close> with no entry in the tracker's map, the first
  \<open>Next(t, v)\<close> with \<open>v\<close> NULL or 0 returns 0, not 1, and afterwards \<open>Current(t) = 1\<close>.
  A table starts generating from 1 exactly when its entry holds 1: so it does after
  \<open>AddNewTable(t)\<close>, and also after \<open>DropTable(t)\<close> with no working set left;
  \<open>Set(t, n)\<close> with \<open>n > 0\<close> stores \<open>n\<close> under the lower-cased name; and a table that
  has an entry after the construction has a counter of at least 1, which \<open>Next\<close>
  returns.
\<close>

theorem Next_on_absent_table:
  assumes "sequences a (ToLower t) = None" and "CoerceAutoIncrementValue conv v = Inr 0"
  shows "fst (Next conv a t v) = Inr 0 \<and>
         Current (snd (Next conv a t v)) t = 1 \<and>
         fst (Next conv (AddNewTable a t) t v) = Inr 1 \<and>
         fst (Next conv (snd (DropTable a t [])) t v) = Inr 1 \<and>
         (\<forall>b. (fst (Next conv b t v) = Inr 1) = (sequences b (ToLower t) = Some 1)) \<and>
         (\<forall>sess ws n. 0 < n \<longrightarrow>
            sequences (snd (Set sess a ws t n)) (ToLower (ToLower t)) = Some n) \<and>
         (\<forall>name roots ait. NewAutoIncrementTracker name roots = Inr ait \<and>
              sequences ait (ToLower t) \<noteq> None \<longrightarrow>
              fst (Next conv ait t v) = Inr (Current ait t) \<and> 1 \<le> Current ait t)"
proof -
  have c0: "Current a t = 0" using assms(1) by (rule Current_absent)
  have 1: "fst (Next conv a t v) = Inr 0"
    using Next_zero_returns_current(1)[OF assms(2), of a t] c0 by simp
  have 2: "Current (snd (Next conv a t v)) t = 1"
    using Next_zero_returns_current(2)[OF assms(2), of a t] c0 by simp
  have 3: "fst (Next conv (AddNewTable a t) t v) = Inr 1"
    using Next_zero_returns_current(1)[OF assms(2), of "AddNewTable a t" t]
      Current_AddNewTable_absent[OF assms(1)] by simp
  have 4: "fst (Next conv (snd (DropTable a t [])) t v) = Inr 1"
    using Next_zero_returns_current(1)[OF assms(2), of "snd (DropTable a t [])" t]
      DropTable_none(2)[of a t] by simp
  have 5: "(fst (Next conv b t v) = Inr 1) = (sequences b (ToLower t) = Some 1)" for b
    using assms(2) by (rule Next_one_iff)
  have 6: "sequences (snd (Set sess a ws t n)) (ToLower (ToLower t)) = Some n" if "0 < n" for sess ws n
    using Set_writes[of a t n sess ws] that c0 by simp
  have 7: "fst (Next conv ait t v) = Inr (Current ait t) \<and> 1 \<le> Current ait t"
    if "NewAutoIncrementTracker name roots = Inr ait" and "sequences ait (ToLower t) \<noteq> None"
    for name roots ait
    using Next_zero_returns_current(1)[OF assms(2), of ait t]
      present_nonzero_Current[OF NewAutoIncrementTracker_nonzero[OF that(1)] that(2)] by simp
  show ?thesis using 1 2 3 4 5 6 7 by blast
qed

theorem Next_on_absent_table_witness:
  "sequences emptyTracker (ToLower ''t'') = None \<and>
   CoerceAutoIncrementValue sampleConvert NilVal = Inr 0 \<and>
   fst (Next sampleConvert emptyTracker ''t'' NilVal) = Inr 0 \<and>
   Current (snd (Next sampleConvert emptyTracker ''t'' NilVal)) ''t'' = 1 \<and>
   fst (Next sampleConvert (AddNewTable emptyTracker ''t'') ''t'' NilVal) = Inr 1 \<and>
   fst (Next sampleConvert (snd (DropTable emptyTracker ''t'' [])) ''t'' NilVal) = Inr 1 \<and>
   sequences (snd (Set sampleSession emptyTracker ''ws'' ''t'' 1)) (ToLower (ToLower ''t'')) = Some 1 \<and>
   NewAutoIncrementTracker ''db'' [Inr (sampleRoot ''T'' 5)] = Inr (sampleTracker ''t'' 5) \<and>
   sequences (sampleTracker ''t'' 5) (ToLower ''t'') \<noteq> None \<and>
   fst (Next sampleConvert (sampleTracker ''t'' 5) ''t'' NilVal) = Inr 5"
proof -
  have h1: "sequences emptyTracker (ToLower ''t'') = None" by (simp add: emptyTracker_def)
  have h2: "CoerceAutoIncrementValue sampleConvert NilVal = Inr 0"
    by (simp add: CoerceAutoIncrementValue_def)
  have h3: "NewAutoIncrementTracker ''db'' [Inr (sampleRoot ''T'' 5)] = Inr (sampleTracker ''t'' 5)"
    by (rule sample_construct)
  have h4: "sequences (sampleTracker ''t'' 5) (ToLower ''t'') \<noteq> None"
    by (simp add: sampleTracker_def ToLower_t)
  have h5: "Current (sampleTracker ''t'' 5) ''t'' = 5"
    by (simp add: Current_def seqAt_def sampleTracker_def ToLower_t)
  have pos: "(0 :: uint64) < 1" by simp
  note T = Next_on_absent_table[OF h1 h2]
  have r1: "fst (Next sampleConvert emptyTracker ''t'' NilVal) = Inr 0" using T by blast
  have r2: "Current (snd (Next sampleConvert emptyTracker ''t'' NilVal)) ''t'' = 1" using T by blast
  have r3: "fst (Next sampleConvert (AddNewTable emptyTracker ''t'') ''t'' NilVal) = Inr 1"
    using T by blast
  have r4: "fst (Next sampleConvert (snd (DropTable emptyTracker ''t'' [])) ''t'' NilVal) = Inr 1"
    using T by blast
  have r5: "sequences (snd (Set sampleSession emptyTracker ''ws'' ''t'' 1)) (ToLower (ToLower ''t'')) = Some 1"
    using T pos by blast
  have "fst (Next sampleConvert (sampleTracker ''t'' 5) ''t'' NilVal) = Inr (Current (sampleTracker ''t'' 5) ''t'')"
    using T h3 h4 by blast
  then have r6: "fst (Next sampleConvert (sampleTracker ''t'' 5) ''t'' NilVal) = Inr 5"
    using h5 by simp
  from h1 h2 r1 r2 r3 r4 r5 h3 h4 r6 show ?thesis by (intro conjI)
qed

subsection \<open>One counter for every spelling\<close>




section \<open>The tracker: construction\<close>

lemma firstError_append:
  "firstError (xs @ ys) = (case firstError xs of Some e \<Rightarrow> Some e | None \<Rightarrow> firstError ys)"
  by (induction xs rule: firstError.induct) auto

lemma persisted_append: "persisted k (xs @ ys) = persisted k xs @ persisted k ys"
  by (induction k xs rule: persisted.induct) auto

lemma IterTables_error:
  "firstError (concat (map entryReads es)) = Some e \<Longrightarrow>
   fst (IterTables es newTrackerCallback seqs) = Some e"
proof (induction es arbitrary: seqs)
  case Nil then show ?case by simp
next
  case (Cons x es)
  show ?case
  proof (cases x)
    case (Inl err)
    then show ?thesis using Cons.prems by simp
  next
    case (Inr p)
    obtain n tbl sch where p: "p = (n, tbl, sch)" by (cases p)
    show ?thesis using Cons.prems Cons.IH unfolding Inr p
      by (auto simp: newTrackerCallback_def Let_def firstError_append split: sum.splits if_splits option.splits)
  qed
qed

lemma callback_ok:
  assumes "firstError (entryReads (Inr (n, tbl, sch))) = None"
  shows "\<exists>seqs'. newTrackerCallback n tbl sch seqs = ((False, None), seqs') \<and>
     (\<forall>k. seqAt seqs' k = fold max (persisted k (entryReads (Inr (n, tbl, sch)))) (seqAt seqs k))"
proof (cases "HasAutoIncrement sch")
  case False
  then show ?thesis by (simp add: newTrackerCallback_def)
next
  case True
  then obtain seq where seq: "GetAutoIncrementValue tbl = Inr seq"
    using assms by (cases "GetAutoIncrementValue tbl") auto
  show ?thesis
  proof (cases "seq > seqAt seqs (ToLower n)")
    case gt: True
    then have "max seq (seqAt seqs (ToLower n)) = seq" by (auto simp: max_def)
    then show ?thesis using True seq gt
      by (auto simp: newTrackerCallback_def seqAt_def)
  next
    case le: False
    then have "max seq (seqAt seqs (ToLower n)) = seqAt seqs (ToLower n)" by (auto simp: max_def)
    then show ?thesis using True seq le
      by (auto simp: newTrackerCallback_def)
  qed
qed

lemma IterTables_ok:
  "firstError (concat (map entryReads es)) = None \<Longrightarrow>
   \<exists>seqs'. IterTables es newTrackerCallback seqs = (None, seqs') \<and>
     (\<forall>k. seqAt seqs' k = fold max (persisted k (concat (map entryReads es))) (seqAt seqs k))"
proof (induction es arbitrary: seqs)
  case Nil then show ?case by simp
next
  case (Cons x es)
  show ?case
  proof (cases x)
    case (Inl err)
    then show ?thesis using Cons.prems by simp
  next
    case (Inr p)
    obtain n tbl sch where p: "p = (n, tbl, sch)" by (cases p)
    have hd: "firstError (entryReads (Inr (n, tbl, sch))) = None"
      and rest: "firstError (concat (map entryReads es)) = None"
      using Cons.prems unfolding Inr p by (auto simp: firstError_append split: option.splits)
    obtain s1 where c1: "newTrackerCallback n tbl sch seqs = ((False, None), s1)"
      and c2: "\<forall>k. seqAt s1 k = fold max (persisted k (entryReads (Inr (n, tbl, sch)))) (seqAt seqs k)"
      using callback_ok[OF hd, of seqs] by blast
    obtain seqs' where a: "IterTables es newTrackerCallback s1 = (None, seqs')"
      and b: "\<forall>k. seqAt seqs' k = fold max (persisted k (concat (map entryReads es))) (seqAt s1 k)"
      using Cons.IH[OF rest, of s1] by blast
    have "IterTables (x # es) newTrackerCallback seqs = (None, seqs')"
      using a c1 unfolding Inr p by simp
    moreover have "\<forall>k. seqAt seqs' k = fold max (persisted k (concat (map entryReads (x # es)))) (seqAt seqs k)"
      using b c2 unfolding Inr p by (simp add: persisted_append del: entryReads.simps)
    ultimately show ?thesis by blast
  qed
qed

lemma newTrackerRoots_error:
  "firstError (allReads roots) = Some e \<Longrightarrow> newTrackerRoots roots ait = Inl e"
proof (induction roots arbitrary: ait)
  case Nil then show ?case by (simp add: allReads_def)
next
  case (Cons r roots)
  show ?case
  proof (cases r)
    case (Inl err)
    then show ?thesis using Cons.prems by (simp add: allReads_def rootReads_def)
  next
    case (Inr rv)
    let ?rs = "concat (map entryReads (iterEntries rv))"
    show ?thesis
    proof (cases "firstError ?rs")
      case (Some e')
      then have "e' = e" using Cons.prems Inr
        by (simp add: allReads_def rootReads_def firstError_append)
      then have "fst (IterTables (iterEntries rv) newTrackerCallback (sequences ait)) = Some e"
        using IterTables_error Some by blast
      then show ?thesis using Inr by (auto split: prod.splits option.splits)
    next
      case None
      then obtain seqs' where "IterTables (iterEntries rv) newTrackerCallback (sequences ait) = (None, seqs')"
        using IterTables_ok by blast
      moreover have "firstError (allReads roots) = Some e"
        using Cons.prems Inr None by (simp add: allReads_def rootReads_def firstError_append)
      ultimately show ?thesis using Inr Cons.IH by simp
    qed
  qed
qed

lemma newTrackerRoots_ok:
  "firstError (allReads roots) = None \<Longrightarrow>
   \<exists>ait'. newTrackerRoots roots ait = Inr ait' \<and> dbName ait' = dbName ait \<and>
     (\<forall>k. seqAt (sequences ait') k = fold max (persisted k (allReads roots)) (seqAt (sequences ait) k))"
proof (induction roots arbitrary: ait)
  case Nil then show ?case by (simp add: allReads_def)
next
  case (Cons r roots)
  show ?case
  proof (cases r)
    case (Inl err)
    then show ?thesis using Cons.prems by (simp add: allReads_def rootReads_def)
  next
    case (Inr rv)
    let ?rs = "concat (map entryReads (iterEntries rv))"
    have hd: "firstError ?rs = None" and rest: "firstError (allReads roots) = None"
      using Cons.prems Inr
      by (auto simp: allReads_def rootReads_def firstError_append split: option.splits)
    obtain s1 where a: "IterTables (iterEntries rv) newTrackerCallback (sequences ait) = (None, s1)"
      and b: "\<forall>k. seqAt s1 k = fold max (persisted k ?rs) (seqAt (sequences ait) k)"
      using IterTables_ok[OF hd] by blast
    obtain ait' where c: "newTrackerRoots roots (ait\<lparr>sequences := s1\<rparr>) = Inr ait'"
      and d: "dbName ait' = dbName ait"
      and e: "\<forall>k. seqAt (sequences ait') k = fold max (persisted k (allReads roots)) (seqAt s1 k)"
      using Cons.IH[OF rest, of "ait\<lparr>sequences := s1\<rparr>"] by auto
    have "newTrackerRoots (r # roots) ait = Inr ait'" using a c Inr by simp
    moreover have "\<forall>k. seqAt (sequences ait') k = fold max (persisted k (allReads (r # roots))) (seqAt (sequences ait) k)"
      using b e Inr by (simp add: allReads_def rootReads_def persisted_append)
    ultimately show ?thesis using d by blast
  qed
qed

text \<open>
  C7. \<open>NewAutoIncrementTracker\<close> sets each table's counter to the maximum persisted
  AUTO_INCREMENT value over all the roots given, under the name in lower case, and reads
  only tables whose schema has an AUTO_INCREMENT column: when no read fails, the tracker
  it returns has \<open>Current(t) = maxPersisted\<close> for every \<open>t\<close> (9 for a table with the
  persisted values 5 and 9). When a read fails (\<open>ResolveRootValue\<close>, the iteration, or
  \<open>GetAutoIncrementValue\<close>), the construction returns the first such error.
\<close>

theorem NewAutoIncrementTracker_max:
  "(\<forall>e. firstError (allReads roots) = Some e \<longrightarrow> NewAutoIncrementTracker name roots = Inl e) \<and>
   (firstError (allReads roots) = None \<longrightarrow>
      (\<exists>ait. NewAutoIncrementTracker name roots = Inr ait \<and> dbName ait = name \<and>
         (\<forall>t. Current ait t = maxPersisted (ToLower t) (allReads roots))))"
proof (intro conjI allI impI)
  fix e assume "firstError (allReads roots) = Some e"
  then show "NewAutoIncrementTracker name roots = Inl e"
    unfolding NewAutoIncrementTracker_def by (rule newTrackerRoots_error)
next
  assume "firstError (allReads roots) = None"
  then obtain ait where a: "newTrackerRoots roots \<lparr>dbName = name, sequences = Map.empty\<rparr> = Inr ait"
    and b: "dbName ait = name"
    and c: "\<forall>k. seqAt (sequences ait) k = fold max (persisted k (allReads roots)) (seqAt Map.empty k)"
    using newTrackerRoots_ok[of roots "\<lparr>dbName = name, sequences = Map.empty\<rparr>"] by auto
  have "Current ait t = maxPersisted (ToLower t) (allReads roots)" for t
  proof -
    have "seqAt (sequences ait) (ToLower t) = fold max (persisted (ToLower t) (allReads roots)) 0"
      using c by (simp add: seqAt_def)
    then show ?thesis unfolding Current_def maxPersisted_def Max.set_eq_fold .
  qed
  then show "\<exists>ait. NewAutoIncrementTracker name roots = Inr ait \<and> dbName ait = name \<and>
         (\<forall>t. Current ait t = maxPersisted (ToLower t) (allReads roots))"
    using a b unfolding NewAutoIncrementTracker_def by blast
qed

theorem NewAutoIncrementTracker_max_witness:
  "firstError (allReads [Inr (sampleRoot ''t'' 5), Inr (sampleRoot ''T'' 9)]) = None \<and>
   maxPersisted (ToLower ''t'') (allReads [Inr (sampleRoot ''t'' 5), Inr (sampleRoot ''T'' 9)]) = 9 \<and>
   (\<exists>ait. NewAutoIncrementTracker ''db'' [Inr (sampleRoot ''t'' 5), Inr (sampleRoot ''T'' 9)] = Inr ait \<and>
      Current ait ''t'' = 9) \<and>
   firstError (allReads [Inr (sampleRoot ''t'' 5), Inl (Err ''no root''), Inr (failingRoot (Err ''read''))])
     = Some (Err ''no root'') \<and>
   NewAutoIncrementTracker ''db'' [Inr (sampleRoot ''t'' 5), Inl (Err ''no root''), Inr (failingRoot (Err ''read''))]
     = Inl (Err ''no root'')"
proof -
  have lt: "ToLower ''t'' = ''t''" by (simp add: ToLower_def toLowerByte_def)
  have lT: "ToLower ''T'' = ''t''" by (simp add: ToLower_def toLowerByte_def char_of_eq_iff)
  have reads: "allReads [Inr (sampleRoot ''t'' 5), Inr (sampleRoot ''T'' 9)] = [Inr (''t'', 5), Inr (''t'', 9)]"
    by (simp add: allReads_def rootReads_def sampleRoot_def sampleTable_def sampleSchema_def lt lT)
  have h1: "firstError (allReads [Inr (sampleRoot ''t'' 5), Inr (sampleRoot ''T'' 9)]) = None"
    unfolding reads by simp
  have m: "maxPersisted (ToLower ''t'') (allReads [Inr (sampleRoot ''t'' 5), Inr (sampleRoot ''T'' 9)]) = 9"
    unfolding reads lt by (simp add: maxPersisted_def)
  have h2: "firstError (allReads [Inr (sampleRoot ''t'' 5), Inl (Err ''no root''), Inr (failingRoot (Err ''read''))])
     = Some (Err ''no root'')"
    by (simp add: allReads_def rootReads_def sampleRoot_def sampleTable_def sampleSchema_def lt)
  note T1 = NewAutoIncrementTracker_max[of "[Inr (sampleRoot ''t'' 5), Inr (sampleRoot ''T'' 9)]" "''db''"]
  note T2 = NewAutoIncrementTracker_max[of "[Inr (sampleRoot ''t'' 5), Inl (Err ''no root''), Inr (failingRoot (Err ''read''))]" "''db''"]
  have r1: "\<exists>ait. NewAutoIncrementTracker ''db'' [Inr (sampleRoot ''t'' 5), Inr (sampleRoot ''T'' 9)] = Inr ait \<and>
      Current ait ''t'' = 9"
    using T1[THEN conjunct2] h1 m by auto
  have r2: "NewAutoIncrementTracker ''db'' [Inr (sampleRoot ''t'' 5), Inl (Err ''no root''), Inr (failingRoot (Err ''read''))]
     = Inl (Err ''no root'')"
    using T2[THEN conjunct1] h2 by blast
  show ?thesis using h1 m r1 h2 r2 by blast
qed

section \<open>The tracker: errors in \<open>Set\<close> and \<open>DropTable\<close>\<close>

text \<open>
  \<open>Set\<close> computes the maximum before it writes: when it returns an error, the tracker
  is what it was.
\<close>

lemma Set_atomic_on_error:
  "fst (Set sess a ws t n) = Some e \<Longrightarrow> snd (Set sess a ws t n) = a"
  by (auto simp: Set_def deepSet_def Let_def split: if_splits option.splits sum.splits prod.splits)

text \<open>
  C3, on the code: \<open>DropTable\<close> writes 1 to the counter before it reads the working
  sets. With the counter of \<open>t\<close> at 10 and a working set whose \<open>GetTableInsensitive\<close>
  fails (a cancelled context), \<open>DropTable\<close> returns that error and leaves the counter
  at 1.
\<close>

theorem DropTable_error_resets_counter:
  "fst (DropTable (sampleTracker ''t'' 10) ''t'' [\<lparr>WorkingRoot = failingRoot (Err ''context canceled'')\<rparr>]) = Some (Err ''context canceled'')
   \<and> Current (sampleTracker ''t'' 10) ''t'' = 10
   \<and> Current (snd (DropTable (sampleTracker ''t'' 10) ''t'' [\<lparr>WorkingRoot = failingRoot (Err ''context canceled'')\<rparr>])) ''t'' = 1"
  by (simp add: DropTable_def dropTableStep_def failingRoot_def failingLookup_def sampleTracker_def
      Current_def seqAt_def ToLower_def toLowerByte_def)

end
